theory Spec2Isabelle
  imports Complex_Main
begin

section \<open>Multiclass classification notebook: softmax, one-hot encoding, cross entropy\<close>

text \<open>
  The development embeds the executable cells of the notebook
  \<^verbatim>\<open>4. Multiclass classification Solutions.ipynb\<close>: the stable
  \<^verbatim>\<open>softmax\<close>, \<^verbatim>\<open>to_one_hot\<close> / \<^verbatim>\<open>to_labels\<close> and the class
  \<^verbatim>\<open>_CrossEntropyWithLogits\<close>.

  Numbers: the entries of a NumPy float array are modelled as exact reals (\<^typ>\<open>real\<close>),
  so \<^verbatim>\<open>np.exp\<close> is \<^const>\<open>exp\<close> and \<^verbatim>\<open>np.log\<close> is \<^const>\<open>ln\<close>. The rounding, overflow
  and underflow of \<^verbatim>\<open>float64\<close> are outside this model: no equality between two different
  floating-point computations is stated below, and where a bound holds in exact
  arithmetic only, the property says so.

  Labels: a label vector is an \<^verbatim>\<open>int64\<close> array, NumPy's default integer type. Its
  entries are \<^typ>\<open>int\<close>, and the one arithmetic operation on them wraps at 64 bits.

  Errors: every exception NumPy raises on the paths below is a value of \<open>error\<close>, and a
  function that can raise returns \<open>error + 'a\<close> with the error on the left.
\<close>

subsection \<open>Errors and two-dimensional arrays\<close>

datatype error = ValueError | IndexError

definition rbind :: "error + 'a \<Rightarrow> ('a \<Rightarrow> error + 'b) \<Rightarrow> error + 'b" where
  "rbind m f = (case m of Inl e \<Rightarrow> Inl e | Inr x \<Rightarrow> f x)"

text \<open>
  A two-dimensional \<^verbatim>\<open>ndarray\<close> of shape \<open>(nrows, ncols)\<close>. The number of columns is
  kept beside the rows because NumPy keeps it when there are no rows: the shapes
  \<open>(0, 3)\<close> and \<open>(0, 0)\<close> behave differently under a reduction along axis 1.
  An array is rectangular, and NumPy stores each extent of its shape as a signed 64-bit
  index, so both extents are below \<open>2 ^ 63\<close>: \<open>well_shaped\<close>.
\<close>

record ndarray =
  ncols :: nat
  rows :: "real list list"

definition nrows :: "ndarray \<Rightarrow> nat" where
  "nrows A = length (rows A)"

definition well_shaped :: "ndarray \<Rightarrow> bool" where
  "well_shaped A =
     (ncols A < 2 ^ 63 \<and> nrows A < 2 ^ 63 \<and> list_all (\<lambda>r. length r = ncols A) (rows A))"

text \<open>
  NumPy broadcasting of two shapes along one axis: equal extents, or one of them is 1
  and is stretched; anything else raises \<^verbatim>\<open>ValueError\<close> (operands could not be broadcast
  together).
\<close>

definition bdim :: "nat \<Rightarrow> nat \<Rightarrow> nat option" where
  "bdim a b = (if a = b then Some a else if a = 1 then Some b else if b = 1 then Some a else None)"

text \<open>Reading position \<open>i\<close> of an axis that may have been stretched from extent 1.\<close>

definition bget :: "'a list \<Rightarrow> nat \<Rightarrow> 'a" where
  "bget xs i = (if length xs = 1 then xs ! 0 else xs ! i)"

text \<open>An elementwise binary operator on two-dimensional arrays (\<^verbatim>\<open>-\<close>, \<^verbatim>\<open>*\<close>, \<^verbatim>\<open>/\<close>).\<close>

definition broadcast2 :: "(real \<Rightarrow> real \<Rightarrow> real) \<Rightarrow> ndarray \<Rightarrow> ndarray \<Rightarrow> error + ndarray" where
  "broadcast2 f A B =
     (case bdim (nrows A) (nrows B) of
        None \<Rightarrow> Inl ValueError
      | Some m \<Rightarrow>
         (case bdim (ncols A) (ncols B) of
            None \<Rightarrow> Inl ValueError
          | Some n \<Rightarrow>
              Inr \<lparr>ncols = n,
                   rows = map (\<lambda>i. map (\<lambda>j. f (bget (bget (rows A) i) j) (bget (bget (rows B) i) j))
                                       [0..<n])
                              [0..<m]\<rparr>))"

text \<open>Elementwise unary functions (\<^verbatim>\<open>np.exp\<close>, \<^verbatim>\<open>np.log\<close>, unary minus).\<close>

definition np_map :: "(real \<Rightarrow> real) \<Rightarrow> ndarray \<Rightarrow> ndarray" where
  "np_map g A = \<lparr>ncols = ncols A, rows = map (map g) (rows A)\<rparr>"

definition np_exp :: "ndarray \<Rightarrow> ndarray" where
  "np_exp A = np_map exp A"

definition np_log :: "ndarray \<Rightarrow> ndarray" where
  "np_log A = np_map ln A"

text \<open>\<^verbatim>\<open>v.reshape(-1, 1)\<close> on a vector, and \<^verbatim>\<open>np.expand_dims(v, axis=1)\<close>: a column.\<close>

definition reshape_col :: "real list \<Rightarrow> ndarray" where
  "reshape_col v = \<lparr>ncols = 1, rows = map (\<lambda>x. [x]) v\<rparr>"

text \<open>
  Reductions along axis 1. \<^verbatim>\<open>np.sum\<close> has an identity, so it accepts an axis of
  extent 0; \<^verbatim>\<open>np.max\<close> and \<^verbatim>\<open>np.argmax\<close> raise \<^verbatim>\<open>ValueError\<close> on it, whatever
  the number of rows. \<^verbatim>\<open>np.argmax\<close> returns the first position of the maximum.
\<close>

definition np_sum_axis1 :: "ndarray \<Rightarrow> real list" where
  "np_sum_axis1 A = map sum_list (rows A)"

definition np_max_axis1 :: "ndarray \<Rightarrow> error + real list" where
  "np_max_axis1 A = (if ncols A = 0 then Inl ValueError else Inr (map (\<lambda>r. Max (set r)) (rows A)))"

fun first_index :: "real list \<Rightarrow> real \<Rightarrow> nat" where
  "first_index [] v = 0"
| "first_index (x # xs) v = (if x = v then 0 else Suc (first_index xs v))"

definition argmax_row :: "real list \<Rightarrow> int" where
  "argmax_row r = int (first_index r (Max (set r)))"

definition np_argmax_axis1 :: "ndarray \<Rightarrow> error + int list" where
  "np_argmax_axis1 A = (if ncols A = 0 then Inl ValueError else Inr (map argmax_row (rows A)))"

subsection \<open>The stable softmax\<close>

text \<open>
  \<^verbatim>\<open>
  def softmax(logits):
      exps = np.exp(logits - np.max(logits, axis=1).reshape(-1, 1))
      return exps / np.sum(exps, axis=1).reshape(-1, 1)
  \<close>
  This is the second cell named \<^verbatim>\<open>softmax\<close>; it replaces the first one, and it is the
  function the later cells call.
\<close>

definition softmax :: "ndarray \<Rightarrow> error + ndarray" where
  "softmax logits =
     rbind (np_max_axis1 logits) (\<lambda>mx.
     rbind (broadcast2 (-) logits (reshape_col mx)) (\<lambda>shifted.
       let exps = np_exp shifted
       in broadcast2 (/) exps (reshape_col (np_sum_axis1 exps))))"

subsection \<open>One-hot encoding and back\<close>

text \<open>
  \<^verbatim>\<open>
  def to_one_hot(labels, max_labels: int = None):
      if max_labels is None:
          max_labels = np.max(labels) + 1
      return np.eye(max_labels)[labels]

  def to_labels(one_hot):
      return np.argmax(one_hot, axis=-1)
  \<close>
  \<^verbatim>\<open>np.max\<close> of an empty vector raises \<^verbatim>\<open>ValueError\<close>; on an \<^verbatim>\<open>int64\<close> vector it
  returns an \<^verbatim>\<open>int64\<close> scalar, and adding 1 to it wraps around at \<open>2 ^ 63\<close>
  (\<open>wrap_int64\<close>); \<^verbatim>\<open>np.eye\<close> of a negative
  number raises \<^verbatim>\<open>ValueError\<close>; indexing the rows of an array with an integer vector
  accepts every index \<open>i\<close> with \<open>-n \<le> i < n\<close>, a negative one counting from the end,
  and raises \<^verbatim>\<open>IndexError\<close> otherwise.
\<close>

definition wrap_int64 :: "int \<Rightarrow> int" where
  "wrap_int64 x = (x + 2 ^ 63) mod 2 ^ 64 - 2 ^ 63"

definition unit_vec :: "nat \<Rightarrow> nat \<Rightarrow> real list" where
  "unit_vec n k = map (\<lambda>j. if j = k then 1 else 0) [0..<n]"

definition np_eye :: "int \<Rightarrow> error + ndarray" where
  "np_eye n =
     (if n < 0 then Inl ValueError
      else Inr \<lparr>ncols = nat n, rows = map (unit_vec (nat n)) [0..<nat n]\<rparr>)"

definition py_index :: "int \<Rightarrow> int \<Rightarrow> nat" where
  "py_index n i = nat (if i < 0 then i + n else i)"

definition take_rows :: "ndarray \<Rightarrow> int list \<Rightarrow> error + ndarray" where
  "take_rows A idx =
     (let n = int (nrows A)
      in if list_all (\<lambda>i. - n \<le> i \<and> i < n) idx
         then Inr \<lparr>ncols = ncols A, rows = map (\<lambda>i. rows A ! py_index n i) idx\<rparr>
         else Inl IndexError)"

definition to_one_hot :: "int list \<Rightarrow> int option \<Rightarrow> error + ndarray" where
  "to_one_hot labels max_labels =
     rbind (case max_labels of
              None \<Rightarrow> (if labels = [] then Inl ValueError
                       else Inr (wrap_int64 (Max (set labels) + 1)))
            | Some n \<Rightarrow> Inr n)
       (\<lambda>n. rbind (np_eye n) (\<lambda>eye. take_rows eye labels))"

definition to_labels :: "ndarray \<Rightarrow> error + int list" where
  "to_labels one_hot = np_argmax_axis1 one_hot"

subsection \<open>Cross entropy with logits\<close>

text \<open>
  \<^verbatim>\<open>
  class _CrossEntropyWithLogits(g.Operation):
      def forward(self, logits, targets):
          softmaxed = softmax(logits)
          one_hot = to_one_hot(targets)
          self.cache = (softmaxed, one_hot)
          return -np.sum(one_hot * np.log(softmaxed), axis=1)

      def backward(self, upstream_gradient):
          expanded_output = upstream_gradient.reshape(-1, 1)
          return (
              expanded_output
              * (
                  self.cache[0] * np.expand_dims(np.sum(self.cache[1], axis=1), axis=1)
                  - self.cache[1]
              ),
              -expanded_output * np.log(self.cache[0]),
          )
  \<close>
  The attribute \<^verbatim>\<open>self.cache\<close> is passed explicitly: \<open>forward\<close> returns it beside the
  loss vector and \<open>backward\<close> takes it as an argument.
\<close>

type_synonym cache = "ndarray \<times> ndarray"

definition forward :: "ndarray \<Rightarrow> int list \<Rightarrow> error + (real list \<times> cache)" where
  "forward logits targets =
     rbind (softmax logits) (\<lambda>softmaxed.
     rbind (to_one_hot targets None) (\<lambda>one_hot.
     rbind (broadcast2 (*) one_hot (np_log softmaxed)) (\<lambda>prod.
       Inr (map uminus (np_sum_axis1 prod), (softmaxed, one_hot)))))"

definition backward :: "cache \<Rightarrow> real list \<Rightarrow> error + (ndarray \<times> ndarray)" where
  "backward c upstream_gradient =
     (let expanded_output = reshape_col upstream_gradient
      in rbind (broadcast2 (*) (fst c) (reshape_col (np_sum_axis1 (snd c)))) (\<lambda>scaled.
         rbind (broadcast2 (-) scaled (snd c)) (\<lambda>diff.
         rbind (broadcast2 (*) expanded_output diff) (\<lambda>d_logits.
         rbind (broadcast2 (*) (np_map uminus expanded_output) (np_log (fst c))) (\<lambda>d_targets.
           Inr (d_logits, d_targets))))))"

section \<open>Basic facts\<close>

lemma rbind_Inl [simp]: "rbind (Inl e) f = Inl e"
  by (simp add: rbind_def)

lemma rbind_Inr [simp]: "rbind (Inr x) f = f x"
  by (simp add: rbind_def)

subsection \<open>Broadcasting against a column\<close>

lemma bdim_same [simp]: "bdim a a = Some a"
  by (simp add: bdim_def)

lemma bdim_one_right [simp]: "bdim a (Suc 0) = Some a"
  by (simp add: bdim_def)

lemma bdim_one_left [simp]: "bdim (Suc 0) a = Some a"
  by (simp add: bdim_def)

lemma bget_nth: "i < length xs \<Longrightarrow> bget xs i = xs ! i"
  by (cases xs) (auto simp: bget_def)

lemma bget_single [simp]: "bget [x] i = x"
  by (simp add: bget_def)

lemma well_shaped_nth: "well_shaped A \<Longrightarrow> i < nrows A \<Longrightarrow> length (rows A ! i) = ncols A"
  by (simp add: well_shaped_def nrows_def list_all_length)

lemma nrows_reshape_col [simp]: "nrows (reshape_col v) = length v"
  by (simp add: nrows_def reshape_col_def)

lemma ncols_reshape_col [simp]: "ncols (reshape_col v) = 1"
  by (simp add: reshape_col_def)

lemma broadcast2_col:
  assumes "well_shaped A" and "length v = nrows A"
  shows "broadcast2 f A (reshape_col v) =
           Inr \<lparr>ncols = ncols A, rows = map2 (\<lambda>r x. map (\<lambda>a. f a x) r) (rows A) v\<rparr>"
proof -
  have "map (\<lambda>i. map (\<lambda>j. f (bget (bget (rows A) i) j) (bget (bget (rows (reshape_col v)) i) j))
                 [0..<ncols A]) [0..<nrows A]
        = map2 (\<lambda>r x. map (\<lambda>a. f a x) r) (rows A) v"
  proof (rule nth_equalityI)
    show "length (map (\<lambda>i. map (\<lambda>j. f (bget (bget (rows A) i) j) (bget (bget (rows (reshape_col v)) i) j))
                 [0..<ncols A]) [0..<nrows A]) = length (map2 (\<lambda>r x. map (\<lambda>a. f a x) r) (rows A) v)"
      using assms by (simp add: nrows_def)
  next
    fix i
    assume "i < length (map (\<lambda>i. map (\<lambda>j. f (bget (bget (rows A) i) j) (bget (bget (rows (reshape_col v)) i) j))
                 [0..<ncols A]) [0..<nrows A])"
    then have i: "i < nrows A" by simp
    then have len: "length (rows A ! i) = ncols A"
      using assms(1) by (rule well_shaped_nth [rotated])
    have ra: "bget (rows A) i = rows A ! i"
      using i by (simp add: bget_nth nrows_def)
    have rv: "bget (rows (reshape_col v)) i = [v ! i]"
      using i assms(2) by (simp add: bget_nth reshape_col_def)
    have "map (\<lambda>j. f (bget (rows A ! i) j) (v ! i)) [0..<ncols A] = map (\<lambda>a. f a (v ! i)) (rows A ! i)"
      using len by (intro nth_equalityI) (simp_all add: bget_nth)
    then show "map (\<lambda>i. map (\<lambda>j. f (bget (bget (rows A) i) j) (bget (bget (rows (reshape_col v)) i) j))
                 [0..<ncols A]) [0..<nrows A] ! i = map2 (\<lambda>r x. map (\<lambda>a. f a x) r) (rows A) v ! i"
      using i assms(2) by (simp add: ra rv nrows_def)
  qed
  then show ?thesis
    by (simp add: broadcast2_def assms(2) [symmetric])
qed

subsection \<open>The softmax row by row\<close>

lemma map2_map_same: "map2 g xs (map h xs) = map (\<lambda>x. g x (h x)) xs"
  by (induction xs) auto

lemma map2_map_map: "map2 g (map h xs) (map k xs) = map (\<lambda>x. g (h x) (k x)) xs"
  by (induction xs) auto

lemma well_shaped_np_map [simp]: "well_shaped (np_map g A) = well_shaped A"
  by (simp add: well_shaped_def np_map_def nrows_def list_all_iff)

lemma nrows_np_map [simp]: "nrows (np_map g A) = nrows A"
  by (simp add: nrows_def np_map_def)

lemma ncols_np_map [simp]: "ncols (np_map g A) = ncols A"
  by (simp add: np_map_def)

lemma rows_np_map [simp]: "rows (np_map g A) = map (map g) (rows A)"
  by (simp add: np_map_def)

lemma length_np_sum_axis1 [simp]: "length (np_sum_axis1 A) = nrows A"
  by (simp add: np_sum_axis1_def nrows_def)

lemma well_shaped_rows_map:
  "well_shaped A \<Longrightarrow> (\<And>r. length (g r) = length r) \<Longrightarrow> well_shaped \<lparr>ncols = ncols A, rows = map g (rows A)\<rparr>"
  by (simp add: well_shaped_def nrows_def list_all_iff)

lemma softmax_rows:
  assumes "well_shaped L" and "0 < ncols L"
  shows "softmax L =
           Inr \<lparr>ncols = ncols L,
                rows = map (\<lambda>r. map (\<lambda>x. exp (x - Max (set r)) / (\<Sum>y\<leftarrow>r. exp (y - Max (set r)))) r)
                           (rows L)\<rparr>"
proof -
  let ?mx = "map (\<lambda>r. Max (set r)) (rows L)"
  let ?S = "\<lparr>ncols = ncols L, rows = map (\<lambda>r. map (\<lambda>x. x - Max (set r)) r) (rows L)\<rparr>"
  have mx: "np_max_axis1 L = Inr ?mx"
    using assms(2) by (simp add: np_max_axis1_def)
  have "length ?mx = nrows L"
    by (simp add: nrows_def)
  from broadcast2_col [OF assms(1) this]
  have sh: "broadcast2 (-) L (reshape_col ?mx) = Inr ?S"
    by (simp add: map2_map_same)
  have ws: "well_shaped (np_exp ?S)"
    using well_shaped_rows_map [OF assms(1), of "\<lambda>r. map (\<lambda>x. x - Max (set r)) r"]
    by (simp add: np_exp_def)
  have len: "length (np_sum_axis1 (np_exp ?S)) = nrows (np_exp ?S)"
    by simp
  show ?thesis
    unfolding softmax_def mx rbind_Inr sh Let_def broadcast2_col [OF ws len]
    by (simp add: np_exp_def np_sum_axis1_def map2_map_map o_def)
qed

lemma sum_list_exp_nonneg: "0 \<le> (\<Sum>y\<leftarrow>r. exp (g y :: real))"
  by (induction r) simp_all

lemma sum_list_exp_pos: "r \<noteq> [] \<Longrightarrow> 0 < (\<Sum>y\<leftarrow>r. exp (g y :: real))"
proof (cases r)
  case Nil
  assume "r \<noteq> []"
  with Nil show ?thesis by simp
next
  case (Cons x xs)
  have "0 < exp (g x) + (\<Sum>y\<leftarrow>xs. exp (g y))"
    by (rule add_pos_nonneg) (simp_all add: sum_list_exp_nonneg)
  with Cons show ?thesis by simp
qed

lemma softmax_zero_cols: "ncols L = 0 \<Longrightarrow> softmax L = Inl ValueError"
  by (simp add: softmax_def np_max_axis1_def)


lemma sum_list_divide: "(\<Sum>x\<leftarrow>r. g x / c) = (\<Sum>x\<leftarrow>r. g x) / (c::real)"
  by (induction r) (simp_all add: add_divide_distrib)

lemma softmax_row_sum:
  assumes "r \<noteq> []"
  shows "(\<Sum>x\<leftarrow>r. exp (x - m) / (\<Sum>y\<leftarrow>r. exp (y - m))) = (1::real)"
proof -
  have "0 < (\<Sum>y\<leftarrow>r. exp (y - m))"
    using assms by (rule sum_list_exp_pos)
  then show ?thesis
    by (simp add: sum_list_divide)
qed

lemma exp_le_sum_list: "x \<in> set r \<Longrightarrow> exp (g x) \<le> (\<Sum>y\<leftarrow>r. exp (g y :: real))"
proof (induction r)
  case Nil
  then show ?case by simp
next
  case (Cons z r)
  have nn: "0 \<le> (\<Sum>y\<leftarrow>r. exp (g y))" by (rule sum_list_exp_nonneg)
  show ?case
  proof (cases "x = z")
    case True
    with nn show ?thesis by simp
  next
    case False
    with Cons have "exp (g x) \<le> (\<Sum>y\<leftarrow>r. exp (g y))" by simp
    moreover have "(\<Sum>y\<leftarrow>z # r. exp (g y)) = exp (g z) + (\<Sum>y\<leftarrow>r. exp (g y))" by simp
    ultimately show ?thesis using exp_gt_zero [of "g z"] by linarith
  qed
qed

lemma exp_less_sum_list:
  assumes "x \<in> set r" and "2 \<le> length r"
  shows "exp (g x) < (\<Sum>y\<leftarrow>r. exp (g y :: real))"
proof (cases r)
  case Nil
  with assms show ?thesis by simp
next
  case (Cons z zs)
  with assms(2) have ne: "zs \<noteq> []" by auto
  show ?thesis
  proof (cases "x = z")
    case True
    have "0 < (\<Sum>y\<leftarrow>zs. exp (g y))" using ne by (rule sum_list_exp_pos)
    with True Cons show ?thesis by simp
  next
    case False
    with assms(1) Cons have "x \<in> set zs" by simp
    then have "exp (g x) \<le> (\<Sum>y\<leftarrow>zs. exp (g y))" by (rule exp_le_sum_list)
    moreover have "(\<Sum>y\<leftarrow>r. exp (g y)) = exp (g z) + (\<Sum>y\<leftarrow>zs. exp (g y))"
      using Cons by simp
    ultimately show ?thesis using exp_gt_zero [of "g z"] by linarith
  qed
qed

lemma softmax_row_entry:
  assumes "p \<in> set (map (\<lambda>x. exp (x - m) / (\<Sum>y\<leftarrow>r. exp (y - m))) r)"
  shows "0 < p \<and> p \<le> 1 \<and> (2 \<le> length r \<longrightarrow> p < (1::real))"
proof -
  from assms obtain x where x: "x \<in> set r" and p: "p = exp (x - m) / (\<Sum>y\<leftarrow>r. exp (y - m))"
    by auto
  from x have "r \<noteq> []" by auto
  then have pos: "0 < (\<Sum>y\<leftarrow>r. exp (y - m))" by (rule sum_list_exp_pos)
  have le: "exp (x - m) \<le> (\<Sum>y\<leftarrow>r. exp (y - m))"
    using x by (rule exp_le_sum_list)
  have less: "2 \<le> length r \<Longrightarrow> exp (x - m) < (\<Sum>y\<leftarrow>r. exp (y - m))"
    using x by (rule exp_less_sum_list)
  show ?thesis
    using pos le less by (simp add: p)
qed

lemma softmax_distribution:
  assumes "well_shaped L" and "0 < ncols L"
  shows "\<exists>P. softmax L = Inr P \<and> ncols P = ncols L \<and> nrows P = nrows L \<and> well_shaped P \<and>
           (\<forall>r\<in>set (rows P). sum_list r = 1 \<and>
              (\<forall>p\<in>set r. 0 < p \<and> p \<le> 1 \<and> (1 < ncols L \<longrightarrow> p < 1)))"
proof -
  let ?row = "\<lambda>r. map (\<lambda>x. exp (x - Max (set r)) / (\<Sum>y\<leftarrow>r. exp (y - Max (set r)))) r"
  let ?P = "\<lparr>ncols = ncols L, rows = map ?row (rows L)\<rparr>"
  have eq: "softmax L = Inr ?P"
    by (rule softmax_rows [OF assms])
  have ws: "well_shaped ?P"
    by (rule well_shaped_rows_map [OF assms(1)]) simp
  have rows: "sum_list q = 1 \<and> (\<forall>p\<in>set q. 0 < p \<and> p \<le> 1 \<and> (1 < ncols L \<longrightarrow> p < 1))"
    if "q \<in> set (rows ?P)" for q
  proof -
    from that obtain r where r: "r \<in> set (rows L)" and q: "q = ?row r"
      by auto
    from r assms(1) have len: "length r = ncols L"
      by (simp add: well_shaped_def list_all_iff)
    with assms(2) have ne: "r \<noteq> []" by auto
    have "sum_list q = 1"
      unfolding q by (rule softmax_row_sum [OF ne])
    moreover have "0 < p \<and> p \<le> 1 \<and> (1 < ncols L \<longrightarrow> p < 1)" if "p \<in> set q" for p
    proof -
      from that have "p \<in> set (?row r)" unfolding q .
      from softmax_row_entry [OF this] len show ?thesis by simp
    qed
    ultimately show ?thesis by blast
  qed
  show ?thesis
  proof (intro exI [of _ ?P] conjI)
    show "softmax L = Inr ?P" by (rule eq)
    show "ncols ?P = ncols L" by simp
    show "nrows ?P = nrows L" by (simp add: nrows_def)
    show "well_shaped ?P" by (rule ws)
    show "\<forall>r\<in>set (rows ?P). sum_list r = 1 \<and>
              (\<forall>p\<in>set r. 0 < p \<and> p \<le> 1 \<and> (1 < ncols L \<longrightarrow> p < 1))"
      using rows by blast
  qed
qed

subsection \<open>One-hot rows and their argmax\<close>

lemma length_unit_vec [simp]: "length (unit_vec n k) = n"
  by (simp add: unit_vec_def)

lemma nth_unit_vec: "j < n \<Longrightarrow> unit_vec n k ! j = (if j = k then 1 else 0)"
  by (simp add: unit_vec_def)

lemma py_index_less: "- n \<le> i \<Longrightarrow> i < n \<Longrightarrow> py_index n i < nat n"
  by (auto simp: py_index_def)

lemma py_index_nonneg: "0 \<le> i \<Longrightarrow> py_index n i = nat i"
  by (simp add: py_index_def)

lemma to_one_hot_Some:
  "to_one_hot labels (Some n) =
     (if n < 0 then Inl ValueError
      else if list_all (\<lambda>i. - n \<le> i \<and> i < n) labels
      then Inr \<lparr>ncols = nat n, rows = map (\<lambda>i. unit_vec (nat n) (py_index n i)) labels\<rparr>
      else Inl IndexError)"
proof (cases "n < 0")
  case True
  then show ?thesis
    by (simp add: to_one_hot_def np_eye_def)
next
  case False
  have "map (\<lambda>i. map (unit_vec (nat n)) [0..<nat n] ! py_index n i) labels
        = map (\<lambda>i. unit_vec (nat n) (py_index n i)) labels"
    if "list_all (\<lambda>i. - n \<le> i \<and> i < n) labels"
    using that by (intro map_cong refl) (simp add: list_all_iff py_index_less)
  with False show ?thesis
    by (simp add: to_one_hot_def np_eye_def take_rows_def nrows_def)
qed

lemma Max_unit_vec: "k < n \<Longrightarrow> Max (set (unit_vec n k)) = 1"
  by (rule Max_eqI) (auto simp: unit_vec_def)

lemma first_index_eq:
  "k < length xs \<Longrightarrow> xs ! k = v \<Longrightarrow> (\<And>j. j < k \<Longrightarrow> xs ! j \<noteq> v) \<Longrightarrow> first_index xs v = k"
proof (induction xs arbitrary: k)
  case Nil
  then show ?case by simp
next
  case (Cons x xs)
  show ?case
  proof (cases k)
    case 0
    with Cons.prems show ?thesis by simp
  next
    case (Suc k')
    from Cons.prems(3) [of 0] Suc have "x \<noteq> v" by simp
    moreover have "first_index xs v = k'"
    proof (rule Cons.IH)
      show "k' < length xs" using Cons.prems(1) Suc by simp
      show "xs ! k' = v" using Cons.prems(2) Suc by simp
      show "xs ! j \<noteq> v" if "j < k'" for j
        using Cons.prems(3) [of "Suc j"] that Suc by simp
    qed
    ultimately show ?thesis using Suc by simp
  qed
qed

lemma argmax_row_unit_vec: "k < n \<Longrightarrow> argmax_row (unit_vec n k) = int k"
  unfolding argmax_row_def Max_unit_vec
  by (simp add: first_index_eq nth_unit_vec)

lemma to_labels_one_hot:
  assumes "list_all (\<lambda>i. 0 \<le> i \<and> i < n) labels" and "0 < n"
  shows "rbind (to_one_hot labels (Some n)) to_labels = Inr labels"
proof -
  have rng: "list_all (\<lambda>i. - n \<le> i \<and> i < n) labels"
    using assms(1) by (auto simp: list_all_iff)
  have "argmax_row (unit_vec (nat n) (py_index n i)) = i" if "i \<in> set labels" for i
  proof -
    from that assms(1) have i: "0 \<le> i" "i < n"
      by (simp_all add: list_all_iff)
    then have "nat i < nat n" by simp
    then have "argmax_row (unit_vec (nat n) (nat i)) = int (nat i)"
      by (rule argmax_row_unit_vec)
    with i show ?thesis by (simp add: py_index_nonneg)
  qed
  then have "map (\<lambda>i. argmax_row (unit_vec (nat n) (py_index n i))) labels = map (\<lambda>i. i) labels"
    by (intro map_cong refl)
  with rng assms(2) show ?thesis
    by (simp add: to_one_hot_Some to_labels_def np_argmax_axis1_def o_def)
qed



lemma Max_plus_one_nonneg:
  assumes "labels \<noteq> []" and "\<forall>l\<in>set labels. (0::int) \<le> l"
  shows "l \<in> set labels \<Longrightarrow> l < Max (set labels) + 1" and "0 \<le> Max (set labels) + 1"
proof -
  show "l < Max (set labels) + 1" if "l \<in> set labels"
    using Max_ge [of "set labels" l] that by simp
  from assms(1) obtain l0 where l0: "l0 \<in> set labels" by (cases labels) auto
  then have "l0 \<le> Max (set labels)" by simp
  moreover from l0 assms(2) have "0 \<le> l0" by blast
  ultimately show "0 \<le> Max (set labels) + 1" by linarith
qed

lemma wrap_int64_id:
  assumes "- (2 ^ 63) \<le> x" and "x < 2 ^ 63"
  shows "wrap_int64 x = x"
proof -
  have "(x + 2 ^ 63) mod 2 ^ 64 = x + 2 ^ 63"
    using assms by (intro mod_pos_pos_trivial) simp_all
  then show ?thesis
    by (simp add: wrap_int64_def)
qed

lemma to_one_hot_None:
  assumes "labels \<noteq> []" and "\<forall>l\<in>set labels. 0 \<le> l" and "\<forall>l\<in>set labels. l < 2 ^ 63 - 1"
  shows "to_one_hot labels None =
           Inr \<lparr>ncols = nat (Max (set labels) + 1),
                rows = map (\<lambda>l. unit_vec (nat (Max (set labels) + 1)) (nat l)) labels\<rparr>"
proof -
  let ?n = "Max (set labels) + 1"
  have rng: "list_all (\<lambda>i. - ?n \<le> i \<and> i < ?n) labels"
    using Max_plus_one_nonneg [OF assms(1,2)] assms(2) by (fastforce simp: list_all_iff)
  have n0: "\<not> ?n < 0"
    using Max_plus_one_nonneg(2) [OF assms(1,2)] by simp
  have "Max (set labels) \<in> set labels"
    using assms(1) by (intro Max_in) simp_all
  with assms(3) have "?n < 2 ^ 63"
    by fastforce
  with n0 have wrap: "wrap_int64 ?n = ?n"
    by (intro wrap_int64_id) simp_all
  have "to_one_hot labels None = to_one_hot labels (Some ?n)"
    using assms(1) by (simp add: to_one_hot_def wrap)
  also have "\<dots> = Inr \<lparr>ncols = nat ?n, rows = map (\<lambda>i. unit_vec (nat ?n) (py_index ?n i)) labels\<rparr>"
    using rng n0 by (simp only: to_one_hot_Some if_True if_False)
  also have "map (\<lambda>i. unit_vec (nat ?n) (py_index ?n i)) labels = map (\<lambda>l. unit_vec (nat ?n) (nat l)) labels"
    using assms(2) by (intro map_cong refl) (simp add: py_index_nonneg)
  finally show ?thesis .
qed

subsection \<open>Broadcasting between equal shapes and the backward pass\<close>

lemma broadcast2_same_shape:
  assumes "well_shaped A" and "well_shaped B" and "nrows A = nrows B" and "ncols A = ncols B"
  shows "broadcast2 f A B = Inr \<lparr>ncols = ncols A, rows = map2 (map2 f) (rows A) (rows B)\<rparr>"
proof -
  have "map (\<lambda>i. map (\<lambda>j. f (bget (bget (rows A) i) j) (bget (bget (rows B) i) j)) [0..<ncols A])
          [0..<nrows A]
        = map2 (map2 f) (rows A) (rows B)"
  proof (rule nth_equalityI)
    show "length (map (\<lambda>i. map (\<lambda>j. f (bget (bget (rows A) i) j) (bget (bget (rows B) i) j)) [0..<ncols A])
          [0..<nrows A]) = length (map2 (map2 f) (rows A) (rows B))"
      using assms(3) by (simp add: nrows_def)
  next
    fix i
    assume "i < length (map (\<lambda>i. map (\<lambda>j. f (bget (bget (rows A) i) j) (bget (bget (rows B) i) j)) [0..<ncols A])
          [0..<nrows A])"
    then have i: "i < nrows A" by simp
    then have i': "i < nrows B" using assms(3) by simp
    have la: "length (rows A ! i) = ncols A"
      using assms(1) i by (rule well_shaped_nth)
    have lb: "length (rows B ! i) = ncols A"
      using well_shaped_nth [OF assms(2) i'] assms(4) by simp
    have ra: "bget (rows A) i = rows A ! i"
      using i by (simp add: bget_nth nrows_def)
    have rb: "bget (rows B) i = rows B ! i"
      using i' by (simp add: bget_nth nrows_def)
    have "map (\<lambda>j. f (bget (rows A ! i) j) (bget (rows B ! i) j)) [0..<ncols A]
          = map2 f (rows A ! i) (rows B ! i)"
      using la lb by (intro nth_equalityI) (simp_all add: bget_nth)
    then show "map (\<lambda>i. map (\<lambda>j. f (bget (bget (rows A) i) j) (bget (bget (rows B) i) j)) [0..<ncols A])
          [0..<nrows A] ! i = map2 (map2 f) (rows A) (rows B) ! i"
      using i i' by (simp add: ra rb nrows_def)
  qed
  then show ?thesis
    by (simp add: broadcast2_def assms(3) [symmetric] assms(4) [symmetric])
qed

lemma broadcast2_col_left:
  assumes "well_shaped B" and "length v = nrows B"
  shows "broadcast2 f (reshape_col v) B =
           Inr \<lparr>ncols = ncols B, rows = map2 (\<lambda>x r. map (f x) r) v (rows B)\<rparr>"
proof -
  have "map (\<lambda>i. map (\<lambda>j. f (bget (bget (rows (reshape_col v)) i) j) (bget (bget (rows B) i) j))
                 [0..<ncols B]) [0..<nrows B]
        = map2 (\<lambda>x r. map (f x) r) v (rows B)"
  proof (rule nth_equalityI)
    show "length (map (\<lambda>i. map (\<lambda>j. f (bget (bget (rows (reshape_col v)) i) j) (bget (bget (rows B) i) j))
                 [0..<ncols B]) [0..<nrows B]) = length (map2 (\<lambda>x r. map (f x) r) v (rows B))"
      using assms by (simp add: nrows_def)
  next
    fix i
    assume "i < length (map (\<lambda>i. map (\<lambda>j. f (bget (bget (rows (reshape_col v)) i) j) (bget (bget (rows B) i) j))
                 [0..<ncols B]) [0..<nrows B])"
    then have i: "i < nrows B" by simp
    then have len: "length (rows B ! i) = ncols B"
      using assms(1) by (rule well_shaped_nth [rotated])
    have rb: "bget (rows B) i = rows B ! i"
      using i by (simp add: bget_nth nrows_def)
    have rv: "bget (rows (reshape_col v)) i = [v ! i]"
      using i assms(2) by (simp add: bget_nth reshape_col_def)
    have "map (\<lambda>j. f (v ! i) (bget (rows B ! i) j)) [0..<ncols B] = map (f (v ! i)) (rows B ! i)"
      using len by (intro nth_equalityI) (simp_all add: bget_nth)
    then show "map (\<lambda>i. map (\<lambda>j. f (bget (bget (rows (reshape_col v)) i) j) (bget (bget (rows B) i) j))
                 [0..<ncols B]) [0..<nrows B] ! i = map2 (\<lambda>x r. map (f x) r) v (rows B) ! i"
      using i assms(2) by (simp add: rb rv nrows_def)
  qed
  then show ?thesis
    by (simp add: broadcast2_def assms(2))
qed

lemma well_shaped_reshape_col: "length v < 2 ^ 63 \<Longrightarrow> well_shaped (reshape_col v)"
  by (simp add: well_shaped_def reshape_col_def nrows_def list_all_iff)

lemma broadcast2_well_shaped:
  assumes "well_shaped A" and "well_shaped B" and "broadcast2 f A B = Inr P"
  shows "well_shaped P"
proof -
  from assms(3) obtain m n where m: "bdim (nrows A) (nrows B) = Some m"
    and n: "bdim (ncols A) (ncols B) = Some n"
    and P: "P = \<lparr>ncols = n,
                  rows = map (\<lambda>i. map (\<lambda>j. f (bget (bget (rows A) i) j) (bget (bget (rows B) i) j))
                                      [0..<n])
                             [0..<m]\<rparr>"
    by (auto simp: broadcast2_def split: option.splits)
  from m assms(1,2) have "m < 2 ^ 63"
    by (auto simp: bdim_def well_shaped_def split: if_splits)
  moreover from n assms(1,2) have "n < 2 ^ 63"
    by (auto simp: bdim_def well_shaped_def split: if_splits)
  ultimately show ?thesis
    by (simp add: P well_shaped_def nrows_def list_all_iff)
qed

lemma sum_list_map2_diff:
  "length xs = length ys \<Longrightarrow> sum_list (map2 (-) xs ys) = sum_list xs - sum_list (ys :: real list)"
  by (induction xs ys rule: list_induct2) simp_all

lemma sum_list_scale: "sum_list (map ((*) c) xs) = c * sum_list (xs :: real list)"
  by (induction xs) (simp_all add: algebra_simps)

lemma np_map_reshape_col: "np_map g (reshape_col v) = reshape_col (map g v)"
  by (simp add: np_map_def reshape_col_def o_def)

lemma backward_rows_sum_zero:
  assumes wsS: "well_shaped S" and wsO: "well_shaped OH"
    and nr: "nrows OH = nrows S" and nc: "ncols OH = ncols S"
    and one: "\<forall>r\<in>set (rows S). sum_list r = 1"
    and lu: "length u = nrows S"
  shows "\<exists>dl dt. backward (S, OH) u = Inr (dl, dt) \<and> nrows dl = nrows S \<and> ncols dl = ncols S \<and>
           (\<forall>r\<in>set (rows dl). sum_list r = 0)"
proof -
  let ?s = "np_sum_axis1 OH"
  let ?T = "\<lparr>ncols = ncols S, rows = map2 (\<lambda>r x. map (\<lambda>a. a * x) r) (rows S) ?s\<rparr>"
  let ?D = "\<lparr>ncols = ncols ?T, rows = map2 (map2 (-)) (rows ?T) (rows OH)\<rparr>"
  let ?G = "\<lparr>ncols = ncols ?D, rows = map2 (\<lambda>x r. map ((*) x) r) u (rows ?D)\<rparr>"
  let ?H = "\<lparr>ncols = ncols (np_log S), rows = map2 (\<lambda>x r. map ((*) x) r) (map uminus u) (rows (np_log S))\<rparr>"
  have ls: "length ?s = nrows S"
    using nr by simp
  have scaled: "broadcast2 (*) S (reshape_col ?s) = Inr ?T"
    using wsS ls by (rule broadcast2_col)
  have "length ?s < 2 ^ 63"
    using ls wsS by (simp add: well_shaped_def)
  then have wsc: "well_shaped (reshape_col ?s)"
    by (rule well_shaped_reshape_col)
  have wsT: "well_shaped ?T"
    using wsS wsc scaled by (rule broadcast2_well_shaped)
  have nrT: "nrows ?T = nrows OH"
    using nr by (simp add: nrows_def np_sum_axis1_def)
  have ncT: "ncols ?T = ncols OH"
    using nc by simp
  have diff: "broadcast2 (-) ?T OH = Inr ?D"
    using wsT wsO nrT ncT by (rule broadcast2_same_shape)
  have wsD: "well_shaped ?D"
    using wsT wsO diff by (rule broadcast2_well_shaped)
  have nrD: "nrows ?D = nrows S"
    using nr by (simp add: nrows_def np_sum_axis1_def)
  have luD: "length u = nrows ?D"
    using lu nrD by simp
  have dl: "broadcast2 (*) (reshape_col u) ?D = Inr ?G"
    using wsD luD by (rule broadcast2_col_left)
  have wsL: "well_shaped (np_log S)"
    using wsS by (simp add: np_log_def)
  have luL: "length (map uminus u) = nrows (np_log S)"
    using lu by (simp add: np_log_def)
  have dt: "broadcast2 (*) (np_map uminus (reshape_col u)) (np_log S) = Inr ?H"
    unfolding np_map_reshape_col using wsL luL by (rule broadcast2_col_left)
  have run: "backward (S, OH) u = Inr (?G, ?H)"
    by (simp only: backward_def Let_def fst_conv snd_conv scaled diff dl dt rbind_Inr)
  have nrG: "nrows ?G = nrows S"
    using lu nr by (simp add: nrows_def np_sum_axis1_def)
  have zero: "sum_list r = 0" if "r \<in> set (rows ?G)" for r
  proof -
    from that obtain i where i: "i < length (rows ?G)" and r: "r = rows ?G ! i"
      by (auto simp: in_set_conv_nth)
    from i nrG have iS: "i < nrows S" by (simp add: nrows_def)
    then have iO: "i < nrows OH" and iu: "i < length u" using nr lu by simp_all
    have lenS: "length (rows S ! i) = ncols S"
      using wsS iS by (rule well_shaped_nth)
    have lenO: "length (rows OH ! i) = ncols S"
      using well_shaped_nth [OF wsO iO] nc by simp
    have sumS: "sum_list (rows S ! i) = 1"
      using one iS by (simp add: nrows_def)
    have "r = map ((*) (u ! i))
                (map2 (-) (map (\<lambda>a. a * sum_list (rows OH ! i)) (rows S ! i)) (rows OH ! i))"
      using iS iO iu by (simp add: r nrows_def np_sum_axis1_def)
    moreover have "length (map (\<lambda>a. a * sum_list (rows OH ! i)) (rows S ! i)) = length (rows OH ! i)"
      using lenS lenO by simp
    ultimately have "sum_list r = u ! i * (sum_list (map (\<lambda>a. a * sum_list (rows OH ! i)) (rows S ! i))
                                     - sum_list (rows OH ! i))"
      by (simp only: sum_list_scale sum_list_map2_diff)
    also have "\<dots> = 0"
      by (simp add: sum_list_mult_const sumS)
    finally show ?thesis .
  qed
  show ?thesis
  proof (rule exI [of _ ?G], rule exI [of _ ?H], intro conjI)
    show "backward (S, OH) u = Inr (?G, ?H)" by (rule run)
    show "nrows ?G = nrows S" by (rule nrG)
    show "ncols ?G = ncols S" by simp
    show "\<forall>r\<in>set (rows ?G). sum_list r = 0" using zero by blast
  qed
qed

section \<open>The properties\<close>

subsection \<open>Cross entropy of one sample with two equal logits\<close>

text \<open>
  Claim C1: for the one-sample batch with logits \<open>[[0, 0]]\<close> and targets \<open>[0]\<close> the forward
  operation should return \<open>- ln (1/2)\<close>. The code does not: \<^verbatim>\<open>to_one_hot(targets)\<close>
  is called without the number of classes, infers one class from the targets and returns
  the \<open>1 \<times> 1\<close> matrix \<open>[[1]]\<close>; the product with the \<open>1 \<times> 2\<close> matrix of log-probabilities
  broadcasts it over both columns, and the sum over the class axis counts both classes.
  The value returned is \<open>- 2 * ln (1/2)\<close>, twice the cross entropy.
\<close>

theorem forward_equal_logits_value:
  "forward \<lparr>ncols = 2, rows = [[0, 0]]\<rparr> [0] =
     Inr ([- 2 * ln (1 / 2)],
          (\<lparr>ncols = 2, rows = [[1 / 2, 1 / 2]]\<rparr>, \<lparr>ncols = 1, rows = [[1]]\<rparr>))
   \<and> - 2 * ln (1 / 2) \<noteq> - ln (1 / 2 :: real)"
  by (simp add: forward_def softmax_def np_max_axis1_def reshape_col_def broadcast2_def bdim_def
      bget_def nrows_def np_exp_def np_map_def np_sum_axis1_def to_one_hot_def np_eye_def
      unit_vec_def take_rows_def py_index_def np_log_def wrap_int64_def upt_rec ln_div)

subsection \<open>Softmax rows are probability distributions\<close>

text \<open>
  Claim C4, as amended: for every real matrix \<open>L\<close>, every row of softmax of \<open>L\<close> sums to 1
  and every entry is non-negative (in exact arithmetic, every entry lies in the half-open
  interval \<open>(0, 1]\<close>, and in the open interval \<open>(0, 1)\<close> when \<open>L\<close> has at least two
  columns). Softmax returns its matrix as soon as \<open>L\<close> has a column.

  The entries of this development are exact reals, so the bounds of the last conjunct
  are proved of exact arithmetic, which is how the claim states them. In \<^verbatim>\<open>float64\<close> the
  exponential underflows to 0 and an entry can be exactly 0 or exactly 1, as in the
  notebook's output \<^verbatim>\<open>[1., 0., 0.]\<close>: there only the bounds \<open>0 \<le> p\<close> and \<open>p \<le> 1\<close> of the
  middle conjunct remain.
\<close>

theorem softmax_rows_sum_to_one:
  assumes "well_shaped L"
  shows "(0 < ncols L \<longrightarrow> (\<exists>P. softmax L = Inr P)) \<and>
         (\<forall>P. softmax L = Inr P \<longrightarrow>
            ncols P = ncols L \<and> nrows P = nrows L \<and>
            (\<forall>r\<in>set (rows P).
               sum_list r = 1 \<and> (\<forall>p\<in>set r. 0 \<le> p \<and> p \<le> 1) \<and>
               (\<forall>p\<in>set r. 0 < p \<and> (1 < ncols L \<longrightarrow> p < 1))))"
proof (cases "ncols L = 0")
  case True
  then show ?thesis
    by (simp add: softmax_zero_cols)
next
  case False
  then have pos: "0 < ncols L" by simp
  from softmax_distribution [OF assms pos] obtain Q where
    Q: "softmax L = Inr Q" and shape: "ncols Q = ncols L" "nrows Q = nrows L"
    and rows: "\<forall>r\<in>set (rows Q). sum_list r = 1 \<and>
                 (\<forall>p\<in>set r. 0 < p \<and> p \<le> 1 \<and> (1 < ncols L \<longrightarrow> p < 1))"
    by blast
  have "\<forall>r\<in>set (rows Q).
          sum_list r = 1 \<and> (\<forall>p\<in>set r. 0 \<le> p \<and> p \<le> 1) \<and>
          (\<forall>p\<in>set r. 0 < p \<and> (1 < ncols L \<longrightarrow> p < 1))"
    using rows by (meson less_imp_le)
  with Q shape show ?thesis
    by simp
qed

text \<open>
  The theorem at the notebook's matrix \<open>[[1000, 9, 8], [11, 12, 15]]\<close>: softmax returns,
  each of the two rows sums to 1, and in exact arithmetic every entry is strictly
  between 0 and 1.
\<close>

theorem softmax_rows_sum_to_one_witness:
  "well_shaped \<lparr>ncols = 3, rows = [[1000, 9, 8], [11, 12, 15]]\<rparr> \<and>
   (\<exists>P. softmax \<lparr>ncols = 3, rows = [[1000, 9, 8], [11, 12, 15]]\<rparr> = Inr P \<and>
        ncols P = 3 \<and> nrows P = 2 \<and>
        (\<forall>r\<in>set (rows P). sum_list r = 1 \<and> (\<forall>p\<in>set r. 0 < p \<and> p < 1)))"
proof -
  have ws: "well_shaped \<lparr>ncols = 3, rows = [[1000, 9, 8], [11, 12, 15]]\<rparr>"
    by (simp add: well_shaped_def nrows_def)
  note inst = softmax_rows_sum_to_one [OF ws]
  from inst obtain P where P: "softmax \<lparr>ncols = 3, rows = [[1000, 9, 8], [11, 12, 15]]\<rparr> = Inr P"
    by auto
  with inst have "ncols P = 3 \<and> nrows P = 2 \<and>
      (\<forall>r\<in>set (rows P). sum_list r = 1 \<and> (\<forall>p\<in>set r. 0 < p \<and> p < 1))"
    by (simp add: nrows_def)
  with ws P show ?thesis
    by blast
qed

text \<open>
  Claim C4 as stated fails on a matrix with a single column: the only entry of each row
  is 1, which is not inside the open interval \<open>(0, 1)\<close>.
\<close>

theorem softmax_rows_sum_to_one_counterexample:
  "softmax \<lparr>ncols = 1, rows = [[0]]\<rparr> = Inr \<lparr>ncols = 1, rows = [[1]]\<rparr>"
  by (simp add: softmax_rows well_shaped_def nrows_def)

subsection \<open>One-hot encoding: round trip, validation, inferred width\<close>

text \<open>
  Claim C2, as amended: for every integer label vector whose values all lie in
  \<open>[0, num_classes)\<close>, with \<open>num_classes\<close> at least 1,
  \<^verbatim>\<open>to_labels(to_one_hot(labels, num_classes))\<close> returns the labels.
\<close>

theorem to_labels_to_one_hot_roundtrip:
  assumes "\<forall>l\<in>set labels. 0 \<le> l \<and> l < n" and "0 < n"
  shows "rbind (to_one_hot labels (Some n)) to_labels = Inr labels"
proof -
  have "list_all (\<lambda>i. 0 \<le> i \<and> i < n) labels"
    using assms(1) by (simp add: list_all_iff)
  then show ?thesis
    using assms(2) by (rule to_labels_one_hot)
qed

text \<open>The label vector of the notebook's text, \<open>[0, 3, 1, 1, 4]\<close>, with five classes.\<close>

theorem to_labels_to_one_hot_roundtrip_witness:
  "list_all (\<lambda>l. 0 \<le> l \<and> l < 5) [0, 3, 1, 1, 4 :: int] \<and> (0 :: int) < 5 \<and>
   rbind (to_one_hot [0, 3, 1, 1, 4] (Some 5)) to_labels = Inr [0, 3, 1, 1, 4]"
proof -
  have rng: "\<forall>l\<in>set [0, 3, 1, 1, 4 :: int]. 0 \<le> l \<and> l < 5"
    by simp
  have pos: "(0 :: int) < 5"
    by simp
  from to_labels_to_one_hot_roundtrip [OF rng pos] rng show ?thesis
    by simp
qed

text \<open>
  Claim C2 as stated fails on the empty label vector with zero classes, whose values all
  lie in the empty range: the one-hot matrix has shape \<open>(0, 0)\<close> and \<^verbatim>\<open>np.argmax\<close>
  along an axis of extent 0 raises \<^verbatim>\<open>ValueError\<close>.
\<close>

theorem to_labels_to_one_hot_roundtrip_counterexample:
  "rbind (to_one_hot [] (Some 0)) to_labels = Inl ValueError"
  by (simp add: to_one_hot_Some to_labels_def np_argmax_axis1_def)

text \<open>
  Claim C7, as amended: for every label vector containing a value \<open>l\<close> with
  \<open>l \<ge> num_classes\<close> or \<open>l < - num_classes\<close>, \<^verbatim>\<open>to_one_hot\<close> raises an error
  (\<^verbatim>\<open>IndexError\<close>, or \<^verbatim>\<open>ValueError\<close> when \<open>num_classes\<close> is negative).
\<close>

theorem to_one_hot_rejects_far_labels:
  assumes "\<exists>l\<in>set labels. l < - n \<or> n \<le> l"
  shows "to_one_hot labels (Some n) = Inl (if n < 0 then ValueError else IndexError)"
  using assms by (auto simp: to_one_hot_Some list_all_iff)

text \<open>The label 3 with three classes is rejected.\<close>

theorem to_one_hot_rejects_far_labels_witness:
  "(\<exists>l\<in>set [0, 3 :: int]. l < - 3 \<or> 3 \<le> l) \<and> to_one_hot [0, 3] (Some 3) = Inl IndexError"
proof -
  have far: "\<exists>l\<in>set [0, 3 :: int]. l < - 3 \<or> 3 \<le> l"
    by simp
  from to_one_hot_rejects_far_labels [OF far] far show ?thesis
    by simp
qed

text \<open>
  Claim C7 as stated fails on a negative label within \<open>[- num_classes, 0)\<close>: the label
  \<open>-1\<close> with three classes is outside \<open>[0, 3)\<close>, no error is raised, and the row
  returned is the unit vector at index 2.
\<close>

theorem to_one_hot_rejects_far_labels_counterexample:
  "to_one_hot [- 1] (Some 3) = Inr \<lparr>ncols = 3, rows = [[0, 0, 1]]\<rparr>"
  by (simp add: to_one_hot_Some unit_vec_def py_index_def upt_rec)

text \<open>
  Claim C8, as amended: when the number of classes is omitted, for every non-empty label
  vector whose labels are all non-negative and below \<open>2 ^ 63 - 1\<close>, \<^verbatim>\<open>to_one_hot\<close>
  returns a matrix with \<open>max(labels) + 1\<close> columns and one row per label, row \<open>i\<close> being
  the unit vector at index \<open>labels[i]\<close>. (At the label \<open>2 ^ 63 - 1\<close>, the largest
  \<^verbatim>\<open>int64\<close> value, \<open>max(labels) + 1\<close> wraps to a negative number.)
\<close>

theorem to_one_hot_inferred_width:
  assumes "labels \<noteq> []" and "\<forall>l\<in>set labels. 0 \<le> l \<and> l < 2 ^ 63 - 1"
  shows "\<exists>P. to_one_hot labels None = Inr P \<and> ncols P = nat (Max (set labels) + 1) \<and>
           nrows P = length labels \<and>
           (\<forall>i<length labels. rows P ! i = unit_vec (ncols P) (nat (labels ! i)) \<and>
                               nat (labels ! i) < ncols P)"
proof -
  let ?n = "nat (Max (set labels) + 1)"
  let ?P = "\<lparr>ncols = ?n, rows = map (\<lambda>l. unit_vec ?n (nat l)) labels\<rparr>"
  have nonneg: "\<forall>l\<in>set labels. 0 \<le> l" and small: "\<forall>l\<in>set labels. l < 2 ^ 63 - 1"
    using assms(2) by blast+
  have "nat (labels ! i) < ?n" if "i < length labels" for i
  proof -
    from that have mem: "labels ! i \<in> set labels" by simp
    then have "labels ! i < Max (set labels) + 1"
      by (rule Max_plus_one_nonneg(1) [OF assms(1) nonneg])
    moreover from mem nonneg have "0 \<le> labels ! i" by blast
    ultimately show ?thesis by simp
  qed
  moreover have "to_one_hot labels None = Inr ?P"
    using assms(1) nonneg small by (rule to_one_hot_None)
  ultimately show ?thesis
    by (intro exI [of _ ?P]) (simp add: nrows_def)
qed

text \<open>The notebook's own call: \<^verbatim>\<open>to_one_hot(np.array([0, 1, 0, 3, 5]))\<close> has six columns.\<close>

theorem to_one_hot_inferred_width_witness:
  "[0, 1, 0, 3, 5 :: int] \<noteq> [] \<and>
   list_all (\<lambda>l. 0 \<le> l \<and> l < 2 ^ 63 - 1) [0, 1, 0, 3, 5 :: int] \<and>
   (\<exists>P. to_one_hot [0, 1, 0, 3, 5] None = Inr P \<and> ncols P = 6 \<and> nrows P = 5)"
proof -
  have ne: "[0, 1, 0, 3, 5 :: int] \<noteq> []"
    by simp
  have rng: "\<forall>l\<in>set [0, 1, 0, 3, 5 :: int]. 0 \<le> l \<and> l < 2 ^ 63 - 1"
    by simp
  from to_one_hot_inferred_width [OF ne rng]
  have "\<exists>P. to_one_hot [0, 1, 0, 3, 5] None = Inr P \<and> ncols P = 6 \<and> nrows P = 5"
    by auto
  then show ?thesis
    by simp
qed

text \<open>
  Claim C8 as stated fails on the non-empty label vector \<open>[-1]\<close>: the inferred number of
  classes is 0 and indexing the empty identity matrix raises \<^verbatim>\<open>IndexError\<close>, so no
  matrix is returned.
\<close>

theorem to_one_hot_inferred_width_counterexample:
  "to_one_hot [- 1] None = Inl IndexError"
  by (simp add: to_one_hot_def np_eye_def take_rows_def nrows_def wrap_int64_def)

text \<open>
  The bound on the labels is needed as well: at the largest \<^verbatim>\<open>int64\<close> label the inferred
  number of classes wraps to \<open>- 2 ^ 63\<close> and \<^verbatim>\<open>np.eye\<close> raises \<^verbatim>\<open>ValueError\<close>.
\<close>

lemma to_one_hot_largest_label:
  "to_one_hot [2 ^ 63 - 1] None = Inl ValueError"
  by (simp add: to_one_hot_def np_eye_def wrap_int64_def)

subsection \<open>The gradient with respect to the logits\<close>

text \<open>
  Claim C6: for every batch of logits with one target per sample, the targets in range and
  their inferred one-hot matrix as wide as the logits (the largest target is the last
  class), and for every upstream gradient with one entry per sample, the forward pass
  returns, the backward pass on its cache returns, and every row of the gradient with
  respect to the logits sums to zero.
\<close>

theorem cross_entropy_gradient_rows_sum_to_zero:
  assumes ws: "well_shaped logits" and lt: "length targets = nrows logits" and ne: "targets \<noteq> []"
    and rng: "\<forall>t\<in>set targets. 0 \<le> t \<and> t < int (ncols logits)"
    and mx: "Max (set targets) + 1 = int (ncols logits)"
    and lu: "length upstream = nrows logits"
  shows "\<exists>out c dl dt. forward logits targets = Inr (out, c) \<and> backward c upstream = Inr (dl, dt) \<and>
           nrows dl = nrows logits \<and> ncols dl = ncols logits \<and> (\<forall>r\<in>set (rows dl). sum_list r = 0)"
proof -
  have nonneg: "\<forall>t\<in>set targets. 0 \<le> t"
    using rng by blast
  from ne obtain t0 where "t0 \<in> set targets" by (cases targets) auto
  with rng have "0 < int (ncols logits)" by fastforce
  then have pos: "0 < ncols logits" by simp
  from softmax_distribution [OF ws pos] obtain S where
    S: "softmax logits = Inr S" and ncS: "ncols S = ncols logits" and nrS: "nrows S = nrows logits"
    and wsS: "well_shaped S" and one: "\<forall>r\<in>set (rows S). sum_list r = 1"
    by blast
  let ?n = "nat (Max (set targets) + 1)"
  let ?OH = "\<lparr>ncols = ?n, rows = map (\<lambda>l. unit_vec ?n (nat l)) targets\<rparr>"
  have cols: "ncols logits < 2 ^ 63" and nrl: "nrows logits < 2 ^ 63"
    using ws by (simp_all add: well_shaped_def)
  have small: "\<forall>t\<in>set targets. t < 2 ^ 63 - 1"
  proof
    fix t assume "t \<in> set targets"
    with rng have "t < int (ncols logits)" by blast
    moreover from cols have "int (ncols logits) \<le> 2 ^ 63 - 1" by simp
    ultimately show "t < 2 ^ 63 - 1" by linarith
  qed
  have OH: "to_one_hot targets None = Inr ?OH"
    using ne nonneg small by (rule to_one_hot_None)
  have "?n = ncols logits"
    using mx by simp
  then have wsO: "well_shaped ?OH"
    using cols nrl lt by (simp add: well_shaped_def nrows_def list_all_iff)
  have nrO: "nrows ?OH = nrows S"
    using lt nrS by (simp add: nrows_def)
  have ncO: "ncols ?OH = ncols S"
    using mx ncS by simp
  have wsL: "well_shaped (np_log S)"
    using wsS by (simp add: np_log_def)
  have nrL: "nrows ?OH = nrows (np_log S)"
    using nrO by (simp add: np_log_def)
  have ncL: "ncols ?OH = ncols (np_log S)"
    using ncO by (simp add: np_log_def)
  let ?P = "\<lparr>ncols = ncols ?OH, rows = map2 (map2 (*)) (rows ?OH) (rows (np_log S))\<rparr>"
  have prod: "broadcast2 (*) ?OH (np_log S) = Inr ?P"
    using wsO wsL nrL ncL by (rule broadcast2_same_shape)
  have fwd: "forward logits targets = Inr (map uminus (np_sum_axis1 ?P), (S, ?OH))"
    by (simp only: forward_def S OH prod rbind_Inr)
  have lu': "length upstream = nrows S"
    using lu nrS by simp
  from backward_rows_sum_zero [OF wsS wsO nrO ncO one lu'] obtain dl dt where
    "backward (S, ?OH) upstream = Inr (dl, dt)" and "nrows dl = nrows S" and "ncols dl = ncols S"
    and "\<forall>r\<in>set (rows dl). sum_list r = 0"
    by blast
  with fwd nrS ncS show ?thesis
    by (intro exI [of _ "map uminus (np_sum_axis1 ?P)"] exI [of _ "(S, ?OH)"] exI [of _ dl] exI [of _ dt])
       simp
qed

text \<open>A batch of two samples and two classes, with targets \<open>[1, 0]\<close>.\<close>

theorem cross_entropy_gradient_rows_sum_to_zero_witness:
  "well_shaped \<lparr>ncols = 2, rows = [[0, 0], [1, 3]]\<rparr> \<and>
   length [1, 0 :: int] = nrows \<lparr>ncols = 2, rows = [[0, 0], [1, 3]]\<rparr> \<and>
   [1, 0 :: int] \<noteq> [] \<and>
   list_all (\<lambda>t. 0 \<le> t \<and> t < int (ncols \<lparr>ncols = 2, rows = [[0, 0], [1, 3]]\<rparr>)) [1, 0 :: int] \<and>
   Max (set [1, 0 :: int]) + 1 = int (ncols \<lparr>ncols = 2, rows = [[0, 0], [1, 3]]\<rparr>) \<and>
   length [1 / 2, 1 / 2 :: real] = nrows \<lparr>ncols = 2, rows = [[0, 0], [1, 3]]\<rparr> \<and>
   (\<exists>out c dl dt. forward \<lparr>ncols = 2, rows = [[0, 0], [1, 3]]\<rparr> [1, 0] = Inr (out, c) \<and>
      backward c [1 / 2, 1 / 2] = Inr (dl, dt) \<and> (\<forall>r\<in>set (rows dl). sum_list r = 0))"
proof -
  have ws: "well_shaped \<lparr>ncols = 2, rows = [[0, 0], [1, 3]]\<rparr>"
    by (simp add: well_shaped_def nrows_def)
  have lt: "length [1, 0 :: int] = nrows \<lparr>ncols = 2, rows = [[0, 0], [1, 3]]\<rparr>"
    by (simp add: nrows_def)
  have ne: "[1, 0 :: int] \<noteq> []"
    by simp
  have rng: "\<forall>t\<in>set [1, 0 :: int]. 0 \<le> t \<and> t < int (ncols \<lparr>ncols = 2, rows = [[0, 0], [1, 3]]\<rparr>)"
    by simp
  have mx: "Max (set [1, 0 :: int]) + 1 = int (ncols \<lparr>ncols = 2, rows = [[0, 0], [1, 3]]\<rparr>)"
    by simp
  have lu: "length [1 / 2, 1 / 2 :: real] = nrows \<lparr>ncols = 2, rows = [[0, 0], [1, 3]]\<rparr>"
    by (simp add: nrows_def)
  from cross_entropy_gradient_rows_sum_to_zero [OF ws lt ne rng mx lu]
  have "\<exists>out c dl dt. forward \<lparr>ncols = 2, rows = [[0, 0], [1, 3]]\<rparr> [1, 0] = Inr (out, c) \<and>
      backward c [1 / 2, 1 / 2] = Inr (dl, dt) \<and> (\<forall>r\<in>set (rows dl). sum_list r = 0)"
    by blast
  with ws lt ne mx lu show ?thesis
    by simp
qed

end
